theory Spec2Isabelle
  imports Main "HOL-Library.Sublist" "HOL-Library.Multiset"
begin

section \<open>Strings as the source uses them\<close>

text \<open>
  The source works on JavaScript strings. They are modelled as \<open>string\<close> (lists of
  8-bit characters); the string methods the source calls (\<open>endsWith\<close>, \<open>split\<close>,
  \<open>filter\<close>, indexing) are written out below with the results JavaScript gives.
\<close>

definition CRLF :: string where
  "CRLF = [CHR 0x0D, CHR 0x0A]"

text \<open>\<open>s.endsWith(suf)\<close>.\<close>

definition endsWith :: "string \<Rightarrow> string \<Rightarrow> bool" where
  "endsWith s suf = (length suf \<le> length s \<and> drop (length s - length suf) s = suf)"

text \<open>
  \<open>s.split(sep)\<close> for a non-empty separator: the input is scanned from the left, every
  occurrence of the separator closes the current piece, and the rest after the last
  occurrence is the final piece (so the result is never empty).
\<close>

function split_from :: "string \<Rightarrow> string \<Rightarrow> string \<Rightarrow> string list" where
  "split_from sep acc [] = [acc]"
| "split_from sep acc (c # cs) =
     (if sep \<noteq> [] \<and> prefix sep (c # cs)
      then acc # split_from sep [] (drop (length sep) (c # cs))
      else split_from sep (acc @ [c]) cs)"
  by pat_completeness auto
termination
  by (relation "measure (\<lambda>(sep, acc, s). length s)") auto

text \<open>With the empty separator \<open>split\<close> returns the characters one by one.\<close>

definition split :: "string \<Rightarrow> string \<Rightarrow> string list" where
  "split s sep = (if sep = [] then map (\<lambda>c. [c]) s else split_from sep [] s)"

section \<open>Regular expressions\<close>

text \<open>
  The two regular expressions of the source use character classes, concatenation and
  the \<open>+\<close> and \<open>{3}\<close> repetitions only. \<open>rexp\<close> is their syntax and \<open>matches\<close> decides
  whether a whole string belongs to the expression (what \<open>RegExp.test\<close> answers for an
  expression anchored with \<open>^\<close> and \<open>$\<close>), by taking derivatives character by character.
\<close>

datatype rexp =
    Void
  | Eps
  | Class "char \<Rightarrow> bool"
  | Alt rexp rexp
  | Seq rexp rexp
  | Star rexp

fun nullable :: "rexp \<Rightarrow> bool" where
  "nullable Void = False"
| "nullable Eps = True"
| "nullable (Class p) = False"
| "nullable (Alt r s) = (nullable r \<or> nullable s)"
| "nullable (Seq r s) = (nullable r \<and> nullable s)"
| "nullable (Star r) = True"

fun deriv :: "char \<Rightarrow> rexp \<Rightarrow> rexp" where
  "deriv c Void = Void"
| "deriv c Eps = Void"
| "deriv c (Class p) = (if p c then Eps else Void)"
| "deriv c (Alt r s) = Alt (deriv c r) (deriv c s)"
| "deriv c (Seq r s) =
     (if nullable r then Alt (Seq (deriv c r) s) (deriv c s) else Seq (deriv c r) s)"
| "deriv c (Star r) = Seq (deriv c r) (Star r)"

fun matches :: "rexp \<Rightarrow> string \<Rightarrow> bool" where
  "matches r [] = nullable r"
| "matches r (c # cs) = matches (deriv c r) cs"

text \<open>\<open>r+\<close> is one \<open>r\<close> followed by any number of them.\<close>

definition Some1 :: "rexp \<Rightarrow> rexp" where
  "Some1 r = Seq r (Star r)"

text \<open>
  The class \<open>\s\<close> of JavaScript, on 8-bit characters: tab, line feed, vertical tab, form
  feed, carriage return, space and the no-break space.
\<close>

definition is_space :: "char \<Rightarrow> bool" where
  "is_space c = ((of_char c :: nat) \<in> {9, 10, 11, 12, 13, 32, 160})"

text \<open>The class \<open>[^\s@]\<close>.\<close>

definition not_space_at :: "char \<Rightarrow> bool" where
  "not_space_at c = (\<not> is_space c \<and> c \<noteq> CHR ''@'')"

text \<open>\<open>EMAIL_REGEX = /^[^\s@]+@[^\s@]+\.[^\s@]+$/\<close>.\<close>

definition EMAIL_REGEX :: rexp where
  "EMAIL_REGEX =
     Seq (Some1 (Class not_space_at))
       (Seq (Class (\<lambda>c. c = CHR ''@''))
         (Seq (Some1 (Class not_space_at))
           (Seq (Class (\<lambda>c. c = CHR ''.''))
             (Some1 (Class not_space_at)))))"

definition isEmailFormatValid :: "string \<Rightarrow> bool" where
  "isEmailFormatValid email = matches EMAIL_REGEX email"

text \<open>
  \<open>getDomain\<close> returns \<open>email.split("@")[1]\<close>; an index past the end of the array gives
  \<open>undefined\<close>, which is \<open>None\<close> here.
\<close>

definition getDomain :: "string \<Rightarrow> string option" where
  "getDomain email =
     (let parts = split email ''@'' in
      if 1 < length parts then Some (parts ! 1) else None)"

section \<open>Configuration\<close>

text \<open>
  \<open>SMTP_PORT\<close>, \<open>HELLO_DOMAIN\<close> and \<open>PROBE_SENDER\<close> are read from the process
  environment when the module is loaded; \<open>default_config\<close> holds the values the source
  falls back to. \<open>SMTP_TIMEOUT_MS\<close> is a constant of the source.
\<close>

record config =
  SMTP_PORT :: nat
  HELLO_DOMAIN :: string
  PROBE_SENDER :: string

definition default_config :: config where
  "default_config =
     \<lparr>SMTP_PORT = 25, HELLO_DOMAIN = ''example.com'', PROBE_SENDER = ''verify@example.com''\<rparr>"

definition SMTP_TIMEOUT_MS :: nat where
  "SMTP_TIMEOUT_MS = 15000"

section \<open>The SMTP probe session\<close>

record SmtpResult =
  success :: bool
  code :: "int option"
  message :: "string option"

text \<open>
  What a handler of the session does to the outside: the calls it makes on the socket, on
  the timer and on the promise's \<open>resolve\<close>, in the order it makes them.
\<close>

datatype call =
    CreateConnection nat string
  | SetTimeout nat
  | ClearTimeout
  | SocketWrite string
  | SocketEnd "string option"
  | SocketDestroy
  | Resolve SmtpResult

text \<open>
  The closure of one \<open>smtpVerifyMailbox\<close> call: its three variables, whether the timer
  is still waiting to fire, the state of the promise (\<open>None\<close> while it is pending; a
  promise keeps the first value it is resolved with) and the calls made so far.
\<close>

record session =
  dataBuffer :: string
  step :: nat
  finished :: bool
  timer_pending :: bool
  promise :: "SmtpResult option"
  calls :: "call list"

text \<open>The events the runtime delivers to the session's callbacks.\<close>

datatype event =
    TimerExpired
  | Data string
  | SocketError string
  | SocketClosed

text \<open>An exception thrown inside a callback.\<close>

datatype js_error = TypeError

definition resolve :: "SmtpResult \<Rightarrow> session \<Rightarrow> session" where
  "resolve r s =
     s\<lparr>promise := (case promise s of None \<Rightarrow> Some r | Some r0 \<Rightarrow> Some r0),
       calls := calls s @ [Resolve r]\<rparr>"

definition clearTimeout :: "session \<Rightarrow> session" where
  "clearTimeout s = s\<lparr>timer_pending := False, calls := calls s @ [ClearTimeout]\<rparr>"

definition socket_write :: "string \<Rightarrow> session \<Rightarrow> session" where
  "socket_write d s = s\<lparr>calls := calls s @ [SocketWrite d]\<rparr>"

definition socket_end :: "string option \<Rightarrow> session \<Rightarrow> session" where
  "socket_end d s = s\<lparr>calls := calls s @ [SocketEnd d]\<rparr>"

definition socket_destroy :: "session \<Rightarrow> session" where
  "socket_destroy s = s\<lparr>calls := calls s @ [SocketDestroy]\<rparr>"

text \<open>\<open>send(cmd)\<close> writes the command and a CRLF.\<close>

definition send :: "string \<Rightarrow> session \<Rightarrow> session" where
  "send cmd s = socket_write (cmd @ CRLF) s"

text \<open>
  \<open>parseCode\<close>: the expression \<open>/^(\d{3})/\<close> matches when the line starts with three
  decimal digits, and \<open>parseInt\<close> reads them in base 10.
\<close>

definition is_digit :: "char \<Rightarrow> bool" where
  "is_digit c = (48 \<le> (of_char c :: nat) \<and> (of_char c :: nat) \<le> 57)"

definition digit_value :: "char \<Rightarrow> int" where
  "digit_value c = int (of_char c) - 48"

definition parseInt10 :: "string \<Rightarrow> int" where
  "parseInt10 ds = foldl (\<lambda>a d. 10 * a + digit_value d) 0 ds"

definition parseCode :: "string \<Rightarrow> int option" where
  "parseCode line =
     (if 3 \<le> length line \<and> list_all is_digit (take 3 line)
      then Some (parseInt10 (take 3 line)) else None)"

text \<open>The callback of \<open>setTimeout\<close>.\<close>

definition on_timeout :: "session \<Rightarrow> session" where
  "on_timeout s =
     (if \<not> finished s
      then resolve \<lparr>success = False, code = None, message = Some ''Timeout''\<rparr>
             (socket_destroy (s\<lparr>finished := True\<rparr>))
      else s)"

text \<open>
  The part of the \<open>data\<close> callback after a status code was parsed: the dispatch on
  \<open>step\<close>, with the buffer already emptied.
\<close>

definition on_reply :: "config \<Rightarrow> string \<Rightarrow> int \<Rightarrow> string \<Rightarrow> session \<Rightarrow> session" where
  "on_reply cfg targetEmail c lastLine s =
     (if step s = 0 then
        (if c \<ge> 400 then
           resolve \<lparr>success = False, code = Some c, message = Some lastLine\<rparr>
             (socket_end (Some (''QUIT'' @ CRLF)) (clearTimeout (s\<lparr>finished := True\<rparr>)))
         else (send (''HELO '' @ HELLO_DOMAIN cfg) s)\<lparr>step := 1\<rparr>)
      else if step s = 1 then
        (if c \<ge> 400 then
           resolve \<lparr>success = False, code = Some c, message = Some lastLine\<rparr>
             (socket_end (Some (''QUIT'' @ CRLF)) (clearTimeout (s\<lparr>finished := True\<rparr>)))
         else (send (''MAIL FROM:<'' @ PROBE_SENDER cfg @ ''>'') s)\<lparr>step := 2\<rparr>)
      else if step s = 2 then
        (if c \<ge> 400 then
           resolve \<lparr>success = False, code = Some c, message = Some lastLine\<rparr>
             (socket_end (Some (''QUIT'' @ CRLF)) (clearTimeout (s\<lparr>finished := True\<rparr>)))
         else (send (''RCPT TO:<'' @ targetEmail @ ''>'') s)\<lparr>step := 3\<rparr>)
      else if step s = 3 then
        (let s1 = send ''QUIT'' (clearTimeout (s\<lparr>finished := True\<rparr>)) in
         if c \<ge> 200 \<and> c < 300 then
           resolve \<lparr>success = True, code = Some c, message = Some lastLine\<rparr>
             (socket_end None s1)
         else if c \<ge> 500 \<and> c < 600 then
           resolve \<lparr>success = False, code = Some c, message = Some lastLine\<rparr>
             (socket_end None s1)
         else
           resolve \<lparr>success = False, code = Some c, message = Some lastLine\<rparr>
             (socket_end None s1))
      else s)"

text \<open>
  The \<open>data\<close> callback. When the buffer holds nothing but line ends, \<open>lines\<close> is empty,
  \<open>lastLine\<close> is \<open>undefined\<close> and \<open>parseCode\<close> throws a \<open>TypeError\<close> on
  \<open>line.match\<close>; the buffer is emptied only after \<open>parseCode\<close> has returned.
\<close>

definition nonempty_lines :: "string \<Rightarrow> string list" where
  "nonempty_lines buf = filter (\<lambda>l. length l > 0) (split buf CRLF)"

definition on_data :: "config \<Rightarrow> string \<Rightarrow> string \<Rightarrow> session \<Rightarrow> js_error + session" where
  "on_data cfg targetEmail chunk s0 =
     (let s = s0\<lparr>dataBuffer := dataBuffer s0 @ chunk\<rparr> in
      if \<not> endsWith (dataBuffer s) CRLF then Inr s
      else
        let lines = nonempty_lines (dataBuffer s) in
        if lines = [] then Inl TypeError
        else
          let lastLine = last lines in
          (case parseCode lastLine of
             None \<Rightarrow> Inr (s\<lparr>dataBuffer := []\<rparr>)
           | Some c \<Rightarrow> Inr (on_reply cfg targetEmail c lastLine (s\<lparr>dataBuffer := []\<rparr>))))"

text \<open>The \<open>error\<close> callback; \<open>msg\<close> is \<open>err.message\<close>.\<close>

definition on_error :: "string \<Rightarrow> session \<Rightarrow> session" where
  "on_error msg s =
     (if finished s then s
      else resolve \<lparr>success = False, code = None, message = Some msg\<rparr>
             (clearTimeout (s\<lparr>finished := True\<rparr>)))"

text \<open>The \<open>end\<close> callback.\<close>

definition on_end :: "session \<Rightarrow> session" where
  "on_end s =
     (if finished s then s
      else resolve \<lparr>success = False, code = None,
                    message = Some ''Connection ended unexpectedly''\<rparr>
             (clearTimeout (s\<lparr>finished := True\<rparr>)))"

text \<open>
  One event. A timer fires at most once, and not at all after \<open>clearTimeout\<close>; the
  other events run their callback whenever they arrive.
\<close>

fun on_event :: "config \<Rightarrow> string \<Rightarrow> event \<Rightarrow> session \<Rightarrow> js_error + session" where
  "on_event cfg targetEmail TimerExpired s =
     Inr (if timer_pending s then on_timeout (s\<lparr>timer_pending := False\<rparr>) else s)"
| "on_event cfg targetEmail (Data chunk) s = on_data cfg targetEmail chunk s"
| "on_event cfg targetEmail (SocketError msg) s = Inr (on_error msg s)"
| "on_event cfg targetEmail SocketClosed s = Inr (on_end s)"

text \<open>A run of events; an exception that escapes a callback ends the run.\<close>

fun run_events :: "config \<Rightarrow> string \<Rightarrow> event list \<Rightarrow> session \<Rightarrow> js_error + session" where
  "run_events cfg targetEmail [] s = Inr s"
| "run_events cfg targetEmail (e # es) s =
     (case on_event cfg targetEmail e s of
        Inl err \<Rightarrow> Inl err
      | Inr s' \<Rightarrow> run_events cfg targetEmail es s')"

text \<open>The body of the promise's executor: the socket and the timer are created.\<close>

definition start :: "config \<Rightarrow> string \<Rightarrow> session" where
  "start cfg mxHost =
     \<lparr>dataBuffer = [], step = 0, finished = False, timer_pending = True, promise = None,
      calls = [CreateConnection (SMTP_PORT cfg) mxHost, SetTimeout SMTP_TIMEOUT_MS]\<rparr>"

text \<open>
  \<open>smtpVerifyMailbox\<close> on a connection that delivers \<open>events\<close>: the session after all
  of them.
\<close>

definition smtpVerifyMailbox ::
  "config \<Rightarrow> string \<Rightarrow> string \<Rightarrow> event list \<Rightarrow> js_error + session" where
  "smtpVerifyMailbox cfg mxHost targetEmail events =
     run_events cfg targetEmail events (start cfg mxHost)"

text \<open>
  What \<open>await\<close> on the promise gives its caller: the value the promise is resolved
  with, as soon as it is; the caller waits for ever when the events end before that, and
  an exception in a callback is not caught by anything.
\<close>

datatype 'a awaited = Settled 'a | Pending | Crashed js_error

fun await_session :: "config \<Rightarrow> string \<Rightarrow> event list \<Rightarrow> session \<Rightarrow> SmtpResult awaited" where
  "await_session cfg targetEmail evs s =
     (case promise s of
        Some r \<Rightarrow> Settled r
      | None \<Rightarrow>
          (case evs of
             [] \<Rightarrow> Pending
           | e # es \<Rightarrow>
               (case on_event cfg targetEmail e s of
                  Inl err \<Rightarrow> Crashed err
                | Inr s' \<Rightarrow> await_session cfg targetEmail es s')))"

definition await_smtpVerifyMailbox ::
  "config \<Rightarrow> string \<Rightarrow> string \<Rightarrow> event list \<Rightarrow> SmtpResult awaited" where
  "await_smtpVerifyMailbox cfg mxHost targetEmail events =
     await_session cfg targetEmail events (start cfg mxHost)"

section \<open>MX resolution\<close>

record MxRecord =
  exchange :: string
  priority :: int

text \<open>
  \<open>Array.prototype.sort\<close> with a comparator is stable: elements the comparator does not
  separate keep their order. \<open>array_sort\<close> inserts each element before the first one it
  does not come after.
\<close>

fun insert_by :: "('a \<Rightarrow> 'a \<Rightarrow> int) \<Rightarrow> 'a \<Rightarrow> 'a list \<Rightarrow> 'a list" where
  "insert_by cmp x [] = [x]"
| "insert_by cmp x (y # ys) = (if cmp x y \<le> 0 then x # y # ys else y # insert_by cmp x ys)"

fun array_sort :: "('a \<Rightarrow> 'a \<Rightarrow> int) \<Rightarrow> 'a list \<Rightarrow> 'a list" where
  "array_sort cmp [] = []"
| "array_sort cmp (x # xs) = insert_by cmp x (array_sort cmp xs)"

text \<open>The comparator of the source: \<open>(a, b) => a.priority - b.priority\<close>.\<close>

definition by_priority :: "MxRecord \<Rightarrow> MxRecord \<Rightarrow> int" where
  "by_priority a b = priority a - priority b"

text \<open>
  What \<open>dns.resolveMx\<close> hands to its callback: \<open>err\<close> (its message; \<open>None\<close> for
  \<open>null\<close>) and \<open>addresses\<close> (\<open>None\<close> for \<open>undefined\<close>). \<open>resolveMx\<close> rejects
  (\<open>Inl\<close>, with the error's message) or resolves with the sorted records.
\<close>

type_synonym dns_answer = "string option \<times> MxRecord list option"

definition resolveMx :: "dns_answer \<Rightarrow> string + MxRecord list" where
  "resolveMx answer =
     (case fst answer of
        Some err \<Rightarrow> Inl err
      | None \<Rightarrow>
          (case snd answer of
             None \<Rightarrow> Inl ''No MX records''
           | Some addresses \<Rightarrow>
               if length addresses = 0 then Inl ''No MX records''
               else Inr (array_sort by_priority addresses)))"

section \<open>verifyEmail\<close>

text \<open>The object \<open>verifyEmail\<close> returns; a field the object does not have is \<open>None\<close>.\<close>

record VerifyResult =
  status :: string
  valid :: bool
  reason :: "string option"
  smtpHostTried :: "string option"
  smtpCode :: "int option"
  smtpMessage :: "string option"

text \<open>
  The network as \<open>verifyEmail\<close> meets it: the answer of the resolver for a domain, and
  the events that the connection opened as the \<open>n\<close>-th one (to a given host) delivers.
\<close>

record network =
  dns :: "string \<Rightarrow> dns_answer"
  net :: "nat \<Rightarrow> string \<Rightarrow> event list"

text \<open>The network accesses \<open>verifyEmail\<close> makes, in order.\<close>

datatype net_access = DnsQuery string | SmtpConnect string

text \<open>
  The two tests of the loop body. \<open>result.code && ...\<close> is false for a missing code and
  for the code 0.
\<close>

definition is_accepting :: "SmtpResult \<Rightarrow> bool" where
  "is_accepting result =
     (success result \<and>
      (case code result of None \<Rightarrow> False | Some c \<Rightarrow> c \<noteq> 0 \<and> c \<ge> 200 \<and> c < 300))"

definition is_rejecting :: "SmtpResult \<Rightarrow> bool" where
  "is_rejecting result =
     (case code result of None \<Rightarrow> False | Some c \<Rightarrow> c \<noteq> 0 \<and> c \<ge> 500 \<and> c < 600)"

definition deliverable :: "string \<Rightarrow> SmtpResult \<Rightarrow> VerifyResult" where
  "deliverable host result =
     \<lparr>status = ''deliverable'', valid = True, reason = None, smtpHostTried = Some host,
      smtpCode = code result, smtpMessage = message result\<rparr>"

definition undeliverable :: "string \<Rightarrow> SmtpResult \<Rightarrow> VerifyResult" where
  "undeliverable host result =
     \<lparr>status = ''undeliverable'', valid = False, reason = None, smtpHostTried = Some host,
      smtpCode = code result, smtpMessage = message result\<rparr>"

definition unknown :: VerifyResult where
  "unknown =
     \<lparr>status = ''unknown'', valid = False,
      reason = Some ''All MX hosts returned temporary or ambiguous responses'',
      smtpHostTried = None, smtpCode = None, smtpMessage = None\<rparr>"

definition invalid_format :: VerifyResult where
  "invalid_format =
     \<lparr>status = ''invalid_format'', valid = False, reason = Some ''Invalid email syntax'',
      smtpHostTried = None, smtpCode = None, smtpMessage = None\<rparr>"

text \<open>\<open>err?.message || String(err)\<close>: an error with an empty message prints as its name.\<close>

definition no_mx :: "string \<Rightarrow> VerifyResult" where
  "no_mx err =
     \<lparr>status = ''no_mx'', valid = False,
      reason = Some (''Domain has no MX: '' @ (if err = [] then ''Error'' else err)),
      smtpHostTried = None, smtpCode = None, smtpMessage = None\<rparr>"

text \<open>
  The loop over the MX records, from the \<open>n\<close>-th connection on. It returns the
  connections it opened and what the function returns; when a probe never settles, or a
  callback of its session throws, the loop gets no further.
\<close>

fun try_hosts ::
  "config \<Rightarrow> (nat \<Rightarrow> string \<Rightarrow> event list) \<Rightarrow> string \<Rightarrow> nat \<Rightarrow> MxRecord list
     \<Rightarrow> net_access list \<times> VerifyResult awaited" where
  "try_hosts cfg nt email n [] = ([], Settled unknown)"
| "try_hosts cfg nt email n (mx # rest) =
     (let host = exchange mx in
      case await_smtpVerifyMailbox cfg host email (nt n host) of
        Pending \<Rightarrow> ([SmtpConnect host], Pending)
      | Crashed err \<Rightarrow> ([SmtpConnect host], Crashed err)
      | Settled result \<Rightarrow>
          if is_accepting result then ([SmtpConnect host], Settled (deliverable host result))
          else if is_rejecting result then
            ([SmtpConnect host], Settled (undeliverable host result))
          else
            (case try_hosts cfg nt email (Suc n) rest of
               (accesses, out) \<Rightarrow> (SmtpConnect host # accesses, out)))"

text \<open>
  \<open>verifyEmail\<close>. For an address that passed the format check \<open>getDomain\<close> is never
  \<open>undefined\<close>; were it so, \<open>dns.resolveMx\<close> would
  refuse the argument before any query, and the \<open>catch\<close> would report \<open>no_mx\<close>.
\<close>

definition verifyEmail ::
  "config \<Rightarrow> network \<Rightarrow> string \<Rightarrow> net_access list \<times> VerifyResult awaited" where
  "verifyEmail cfg nw email =
     (if \<not> isEmailFormatValid email then ([], Settled invalid_format)
      else
        (case getDomain email of
           None \<Rightarrow> ([], Settled (no_mx ''The name argument must be of type string''))
         | Some domain \<Rightarrow>
             (case resolveMx (dns nw domain) of
                Inl err \<Rightarrow> ([DnsQuery domain], Settled (no_mx err))
              | Inr mxRecords \<Rightarrow>
                  (case try_hosts cfg (net nw) email 0 mxRecords of
                     (accesses, out) \<Rightarrow> (DnsQuery domain # accesses, out)))))"

section \<open>The language of a regular expression\<close>

text \<open>
  The strings an expression stands for, to state what \<open>matches\<close> decides.
\<close>

inductive_set star :: "string set \<Rightarrow> string set" for A :: "string set" where
  star_empty: "[] \<in> star A"
| star_more: "u \<in> A \<Longrightarrow> v \<in> star A \<Longrightarrow> u @ v \<in> star A"

fun lang :: "rexp \<Rightarrow> string set" where
  "lang Void = {}"
| "lang Eps = {[]}"
| "lang (Class p) = {w. \<exists>c. w = [c] \<and> p c}"
| "lang (Alt r s) = lang r \<union> lang s"
| "lang (Seq r s) = {w. \<exists>u v. w = u @ v \<and> u \<in> lang r \<and> v \<in> lang s}"
| "lang (Star r) = star (lang r)"

section \<open>The invariant of a session\<close>

text \<open>
  The flag \<open>finished\<close>, the promise and the timer agree: the promise is settled exactly
  when the flag is set, and the timer waits exactly when it is not.
\<close>

definition agree :: "session \<Rightarrow> bool" where
  "agree s = ((finished s = (promise s \<noteq> None)) \<and> (finished s = (\<not> timer_pending s)))"

section \<open>Example networks\<close>

text \<open>A reply of the server that arrives in one piece: a line and its CRLF.\<close>

definition reply :: "string \<Rightarrow> event" where
  "reply line = Data (line @ CRLF)"

text \<open>A resolver that fails for every domain, and no host that answers.\<close>

definition dead_network :: network where
  "dead_network = \<lparr>dns = (\<lambda>domain. (Some ''queryMx ENOTFOUND'', None)), net = (\<lambda>n host. [])\<rparr>"

text \<open>
  Two exchangers: the first answers the recipient with 450, the second with 550.
\<close>

definition two_host_network :: network where
  "two_host_network =
     \<lparr>dns = (\<lambda>domain. (None, Some [\<lparr>exchange = ''mx1'', priority = 10\<rparr>,
                                       \<lparr>exchange = ''mx2'', priority = 20\<rparr>])),
      net = (\<lambda>n host.
        if host = ''mx1''
        then [reply ''220 hi'', reply ''250 ok'', reply ''250 ok'', reply ''450 later'']
        else [reply ''220 hi'', reply ''250 ok'', reply ''250 ok'', reply ''550 no''])\<rparr>"

text \<open>
  Three exchangers, handed out by the resolver with the priorities 20, 10 and 30; none
  of them ever answers, so each session ends with its timer.
\<close>

definition three_host_network :: network where
  "three_host_network =
     \<lparr>dns = (\<lambda>domain. (None, Some [\<lparr>exchange = ''a'', priority = 20\<rparr>,
                                       \<lparr>exchange = ''b'', priority = 10\<rparr>,
                                       \<lparr>exchange = ''c'', priority = 30\<rparr>])),
      net = (\<lambda>n host. [TimerExpired])\<rparr>"

text \<open>One exchanger, which accepts the recipient.\<close>

definition accepting_network :: network where
  "accepting_network =
     \<lparr>dns = (\<lambda>domain. (None, Some [\<lparr>exchange = ''mx'', priority = 5\<rparr>])),
      net = (\<lambda>n host. [reply ''220 hi'', reply ''250 ok'', reply ''250 ok'', reply ''250 ok''])\<rparr>"

section \<open>What the matcher decides\<close>

lemma nullable_lang: "nullable r \<longleftrightarrow> [] \<in> lang r"
  by (induction r) (auto intro: star.star_empty)

lemma star_cons:
  "c # w \<in> star A \<longleftrightarrow> (\<exists>u v. w = u @ v \<and> c # u \<in> A \<and> v \<in> star A)"
proof
  assume "c # w \<in> star A"
  then show "\<exists>u v. w = u @ v \<and> c # u \<in> A \<and> v \<in> star A"
  proof (induction "c # w" arbitrary: w rule: star.induct)
    case (star_more u v)
    then show ?case
      by (cases u) auto
  qed
next
  assume "\<exists>u v. w = u @ v \<and> c # u \<in> A \<and> v \<in> star A"
  then obtain u v where "w = u @ v" "c # u \<in> A" "v \<in> star A" by blast
  then show "c # w \<in> star A"
    using star.star_more [of "c # u" A v] by simp
qed

lemma lang_deriv: "w \<in> lang (deriv c r) \<longleftrightarrow> c # w \<in> lang r"
  by (induction r arbitrary: w) (auto simp: nullable_lang star_cons Cons_eq_append_conv)

lemma lang_Seq_iff:
  "w \<in> lang (Seq r s) \<longleftrightarrow> (\<exists>u v. w = u @ v \<and> u \<in> lang r \<and> v \<in> lang s)"
  by simp

lemma matches_lang: "matches r w \<longleftrightarrow> w \<in> lang r"
  by (induction w arbitrary: r) (simp_all add: nullable_lang lang_deriv)

lemma star_class: "w \<in> star (lang (Class p)) \<longleftrightarrow> list_all p w"
proof
  assume "w \<in> star (lang (Class p))"
  then show "list_all p w"
    by (induction rule: star.induct) auto
next
  assume "list_all p w"
  then show "w \<in> star (lang (Class p))"
  proof (induction w)
    case Nil
    show ?case by (rule star.star_empty)
  next
    case (Cons c w)
    then have "[c] \<in> lang (Class p)" "w \<in> star (lang (Class p))" by simp_all
    then have "[c] @ w \<in> star (lang (Class p))" by (rule star.star_more)
    then show ?case by simp
  qed
qed

lemma lang_Seq_Class:
  "w \<in> lang (Seq (Class p) r) \<longleftrightarrow> (\<exists>c v. w = c # v \<and> p c \<and> v \<in> lang r)"
proof
  assume "w \<in> lang (Seq (Class p) r)"
  then show "\<exists>c v. w = c # v \<and> p c \<and> v \<in> lang r" by auto
next
  assume "\<exists>c v. w = c # v \<and> p c \<and> v \<in> lang r"
  then obtain c v where w: "w = [c] @ v" and c: "p c" and v: "v \<in> lang r" by auto
  from c have "[c] \<in> lang (Class p)" by simp
  with w v show "w \<in> lang (Seq (Class p) r)"
    unfolding lang_Seq_iff by blast
qed

lemma lang_Some1_Class: "w \<in> lang (Some1 (Class p)) \<longleftrightarrow> w \<noteq> [] \<and> list_all p w"
proof -
  have "w \<in> lang (Some1 (Class p)) \<longleftrightarrow> (\<exists>c v. w = c # v \<and> p c \<and> list_all p v)"
    unfolding Some1_def lang_Seq_Class lang.simps(6) star_class ..
  also have "\<dots> \<longleftrightarrow> w \<noteq> [] \<and> list_all p w"
    by (cases w) auto
  finally show ?thesis .
qed


text \<open>What the expression of the source accepts.\<close>

lemma lang_EMAIL_REGEX:
  "w \<in> lang EMAIL_REGEX \<longleftrightarrow>
     (\<exists>l d t. w = l @ CHR ''@'' # d @ CHR ''.'' # t \<and>
        l \<noteq> [] \<and> list_all not_space_at l \<and>
        d \<noteq> [] \<and> list_all not_space_at d \<and>
        t \<noteq> [] \<and> list_all not_space_at t)"
proof -
  define T where "T = Some1 (Class not_space_at)"
  define R3 where "R3 = Seq (Class (\<lambda>c. c = CHR ''.'')) T"
  define R2 where "R2 = Seq T R3"
  define R1 where "R1 = Seq (Class (\<lambda>c. c = CHR ''@'')) R2"
  have T: "\<And>v. v \<in> lang T \<longleftrightarrow> v \<noteq> [] \<and> list_all not_space_at v"
    unfolding T_def by (rule lang_Some1_Class)
  have R3: "\<And>v. v \<in> lang R3 \<longleftrightarrow>
      (\<exists>t. v = CHR ''.'' # t \<and> t \<noteq> [] \<and> list_all not_space_at t)"
    unfolding R3_def lang_Seq_Class T by auto
  have R2: "\<And>v. v \<in> lang R2 \<longleftrightarrow>
      (\<exists>d t. v = d @ CHR ''.'' # t \<and> d \<noteq> [] \<and> list_all not_space_at d \<and>
         t \<noteq> [] \<and> list_all not_space_at t)"
    unfolding R2_def lang_Seq_iff T R3 by auto
  have R1: "\<And>v. v \<in> lang R1 \<longleftrightarrow>
      (\<exists>d t. v = CHR ''@'' # d @ CHR ''.'' # t \<and> d \<noteq> [] \<and> list_all not_space_at d \<and>
         t \<noteq> [] \<and> list_all not_space_at t)"
    unfolding R1_def lang_Seq_Class R2 by auto
  have E: "EMAIL_REGEX = Seq T R1"
    by (simp add: EMAIL_REGEX_def T_def R1_def R2_def R3_def)
  have "w \<in> lang EMAIL_REGEX \<longleftrightarrow> (\<exists>u v. w = u @ v \<and> u \<in> lang T \<and> v \<in> lang R1)"
    unfolding E by (rule lang_Seq_iff)
  also have "\<dots> \<longleftrightarrow>
     (\<exists>l d t. w = l @ CHR ''@'' # d @ CHR ''.'' # t \<and>
        l \<noteq> [] \<and> list_all not_space_at l \<and>
        d \<noteq> [] \<and> list_all not_space_at d \<and>
        t \<noteq> [] \<and> list_all not_space_at t)"
    unfolding T R1 by auto
  finally show ?thesis .
qed


lemma matches_EMAIL_REGEX:
  "isEmailFormatValid w \<longleftrightarrow>
     (\<exists>l d t. w = l @ CHR ''@'' # d @ CHR ''.'' # t \<and>
        l \<noteq> [] \<and> list_all not_space_at l \<and>
        d \<noteq> [] \<and> list_all not_space_at d \<and>
        t \<noteq> [] \<and> list_all not_space_at t)"
  unfolding isEmailFormatValid_def matches_lang by (rule lang_EMAIL_REGEX)

lemma not_space_at_set: "list_all not_space_at u \<Longrightarrow> CHR ''@'' \<notin> set u"
  by (auto simp: list_all_iff not_space_at_def)

lemma split_from_no_sep:
  "c \<notin> set u \<Longrightarrow> split_from [c] acc u = [acc @ u]"
  by (induction u arbitrary: acc) auto

lemma split_from_first_sep:
  "c \<notin> set u \<Longrightarrow> split_from [c] acc (u @ c # v) = (acc @ u) # split_from [c] [] v"
  by (induction u arbitrary: acc) auto

lemma split_one_at:
  assumes "CHR ''@'' \<notin> set l" "CHR ''@'' \<notin> set r"
  shows "split (l @ CHR ''@'' # r) ''@'' = [l, r]"
  using assms by (simp add: split_def split_from_first_sep split_from_no_sep)

lemma split_no_at:
  assumes "CHR ''@'' \<notin> set w"
  shows "split w ''@'' = [w]"
  using assms by (simp add: split_def split_from_no_sep)


lemma valid_email_parts:
  assumes "isEmailFormatValid email"
  obtains l d t where "email = l @ CHR ''@'' # d @ CHR ''.'' # t"
    and "l \<noteq> []" and "list_all not_space_at l"
    and "d \<noteq> []" and "list_all not_space_at d"
    and "t \<noteq> []" and "list_all not_space_at t"
  using assms unfolding matches_EMAIL_REGEX by blast

lemma valid_email_split:
  assumes "email = l @ CHR ''@'' # d @ CHR ''.'' # t"
    and "list_all not_space_at l" and "list_all not_space_at d" and "list_all not_space_at t"
  shows "split email ''@'' = [l, d @ CHR ''.'' # t]"
proof -
  have "CHR ''@'' \<notin> set l" "CHR ''@'' \<notin> set (d @ CHR ''.'' # t)"
    using assms(2-4) by (auto dest: not_space_at_set)
  then show ?thesis
    unfolding assms(1) by (rule split_one_at)
qed

section \<open>The format check and the domain\<close>

text \<open>
  Claim C10. An address that \<open>isEmailFormatValid\<close> accepts holds exactly one \<open>@\<close>, so
  \<open>getDomain\<close> (the second element of the split at \<open>@\<close>) is defined for it: it is a
  non-empty string with at least one dot and no white space. The \<open>undefined\<close> result
  of \<open>getDomain\<close> cannot occur behind the format check.
\<close>

theorem valid_email_has_domain:
  assumes "isEmailFormatValid email"
  shows "count_list email CHR ''@'' = 1 \<and>
    (\<exists>d. getDomain email = Some d \<and> d \<noteq> [] \<and> CHR ''.'' \<in> set d \<and>
       list_all (\<lambda>c. \<not> is_space c) d)"
proof -
  from assms obtain l d t where e: "email = l @ CHR ''@'' # d @ CHR ''.'' # t"
    and l: "list_all not_space_at l" and d: "list_all not_space_at d"
    and t: "list_all not_space_at t"
    by (rule valid_email_parts)
  have "count_list l CHR ''@'' = 0" "count_list d CHR ''@'' = 0" "count_list t CHR ''@'' = 0"
    using l d t by (simp_all add: count_list_0_iff not_space_at_set)
  then have one: "count_list email CHR ''@'' = 1"
    unfolding e by simp
  have "split email ''@'' = [l, d @ CHR ''.'' # t]"
    using e l d t by (rule valid_email_split)
  then have dom: "getDomain email = Some (d @ CHR ''.'' # t)"
    by (simp add: getDomain_def)
  have "list_all (\<lambda>c. \<not> is_space c) (d @ CHR ''.'' # t)"
    using d t by (auto simp: list_all_iff not_space_at_def is_space_def)
  with one dom show ?thesis by simp
qed

theorem valid_email_has_domain_witness:
  "isEmailFormatValid ''a@b.co'' \<and>
   (count_list ''a@b.co'' CHR ''@'' = 1 \<and>
    (\<exists>d. getDomain ''a@b.co'' = Some d \<and> d \<noteq> [] \<and> CHR ''.'' \<in> set d \<and>
       list_all (\<lambda>c. \<not> is_space c) d)) \<and>
   getDomain ''a@b.co'' = Some ''b.co''"
proof -
  have v: "isEmailFormatValid ''a@b.co''"
    by (simp add: isEmailFormatValid_def EMAIL_REGEX_def Some1_def not_space_at_def is_space_def)
  have g: "getDomain ''a@b.co'' = Some ''b.co''"
    by (simp add: getDomain_def split_def)
  from v valid_email_has_domain [OF v] g show ?thesis by blast
qed

text \<open>
  Claim C9. An address without \<open>@\<close>, or whose domain part has no dot, is answered with
  \<open>invalid_format\<close> and \<open>valid = false\<close>, and \<open>verifyEmail\<close> makes no network access
  for it: neither a DNS query nor an SMTP connection.
\<close>

theorem malformed_email_is_invalid_format:
  assumes "CHR ''@'' \<notin> set email \<or> (\<exists>d. getDomain email = Some d \<and> CHR ''.'' \<notin> set d)"
  shows "verifyEmail cfg nw email = ([], Settled invalid_format) \<and>
    status invalid_format = ''invalid_format'' \<and> valid invalid_format = False"
proof -
  have "\<not> isEmailFormatValid email"
  proof
    assume v: "isEmailFormatValid email"
    then obtain l d t where e: "email = l @ CHR ''@'' # d @ CHR ''.'' # t"
      and l: "list_all not_space_at l" and d: "list_all not_space_at d"
      and t: "list_all not_space_at t"
      by (rule valid_email_parts)
    have "split email ''@'' = [l, d @ CHR ''.'' # t]"
      using e l d t by (rule valid_email_split)
    then have "getDomain email = Some (d @ CHR ''.'' # t)"
      by (simp add: getDomain_def)
    moreover have "CHR ''@'' \<in> set email"
      unfolding e by simp
    ultimately show False
      using assms by auto
  qed
  then show ?thesis
    by (simp add: verifyEmail_def invalid_format_def)
qed

theorem malformed_email_is_invalid_format_witness:
  "CHR ''@'' \<notin> set ''plainaddress'' \<and>
   verifyEmail default_config dead_network ''plainaddress'' = ([], Settled invalid_format) \<and>
   getDomain ''user@localhost'' = Some ''localhost'' \<and>
   CHR ''.'' \<notin> set ''localhost'' \<and>
   verifyEmail default_config two_host_network ''user@localhost'' = ([], Settled invalid_format)"
proof -
  have a: "CHR ''@'' \<notin> set ''plainaddress''"
    by simp
  have g: "getDomain ''user@localhost'' = Some ''localhost''"
    by (simp add: getDomain_def split_def)
  have d: "CHR ''.'' \<notin> set ''localhost''"
    by simp
  from g d have b: "CHR ''@'' \<notin> set ''user@localhost'' \<or>
      (\<exists>d. getDomain ''user@localhost'' = Some d \<and> CHR ''.'' \<notin> set d)"
    by blast
  from a have a': "CHR ''@'' \<notin> set ''plainaddress'' \<or>
      (\<exists>d. getDomain ''plainaddress'' = Some d \<and> CHR ''.'' \<notin> set d)"
    by blast
  show ?thesis
    using a g d
      malformed_email_is_invalid_format [OF a', of default_config dead_network]
      malformed_email_is_invalid_format [OF b, of default_config two_host_network]
    by blast
qed


section \<open>The probe session\<close>

lemmas call_defs =
  resolve_def clearTimeout_def socket_write_def socket_end_def socket_destroy_def send_def

lemma on_data_framed:
  assumes "endsWith (dataBuffer s @ chunk) CRLF"
    and "nonempty_lines (dataBuffer s @ chunk) \<noteq> []"
    and "parseCode (last (nonempty_lines (dataBuffer s @ chunk))) = Some c"
  shows "on_data cfg targetEmail chunk s =
    Inr (on_reply cfg targetEmail c (last (nonempty_lines (dataBuffer s @ chunk)))
          (s\<lparr>dataBuffer := []\<rparr>))"
  using assms by (simp add: on_data_def Let_def)

lemma on_data_cases:
  assumes "on_data cfg targetEmail chunk s = Inr s'"
  shows "s' = s\<lparr>dataBuffer := dataBuffer s @ chunk\<rparr> \<or> s' = s\<lparr>dataBuffer := []\<rparr> \<or>
    (\<exists>c l. s' = on_reply cfg targetEmail c l (s\<lparr>dataBuffer := []\<rparr>))"
  using assms by (auto simp: on_data_def Let_def split: if_splits option.splits)

lemma agree_buffer [simp]: "agree (s\<lparr>dataBuffer := b\<rparr>) = agree s"
  by (simp add: agree_def)

lemma on_reply_agree: "agree s \<Longrightarrow> agree (on_reply cfg t c l s)"
  by (auto simp: agree_def on_reply_def call_defs Let_def split: option.splits)

lemma on_event_agree:
  assumes "on_event cfg t e s = Inr s'" and "agree s"
  shows "agree s'"
proof (cases e)
  case TimerExpired
  with assms show ?thesis
    by (auto simp: agree_def on_timeout_def call_defs split: if_splits)
next
  case (Data chunk)
  with assms(1) have "on_data cfg t chunk s = Inr s'" by simp
  from on_data_cases [OF this] assms(2) show ?thesis
    by (auto intro: on_reply_agree)
next
  case (SocketError msg)
  with assms show ?thesis
    by (auto simp: agree_def on_error_def call_defs split: if_splits)
next
  case SocketClosed
  with assms show ?thesis
    by (auto simp: agree_def on_end_def call_defs split: if_splits)
qed

lemma run_events_agree:
  assumes "run_events cfg t evs s = Inr s'" and "agree s"
  shows "agree s'"
  using assms
proof (induction evs arbitrary: s)
  case Nil
  then show ?case by simp
next
  case (Cons e evs)
  from Cons.prems(1) obtain s1 where e: "on_event cfg t e s = Inr s1"
    and r: "run_events cfg t evs s1 = Inr s'"
    by (auto split: sum.splits)
  from e Cons.prems(2) have "agree s1" by (rule on_event_agree)
  with r show ?case by (rule Cons.IH)
qed

lemma session_agree:
  assumes "smtpVerifyMailbox cfg mxHost t evs = Inr s"
  shows "agree s"
  using assms unfolding smtpVerifyMailbox_def
  by (rule run_events_agree) (simp add: agree_def start_def)


lemma run_events_append:
  "run_events cfg t (evs @ es) s =
     (case run_events cfg t evs s of Inl err \<Rightarrow> Inl err | Inr s' \<Rightarrow> run_events cfg t es s')"
  by (induction evs arbitrary: s) (auto split: sum.splits)

lemma on_reply_keeps_promise:
  "promise s = Some r \<Longrightarrow> promise (on_reply cfg t c l s) = Some r"
  by (simp add: on_reply_def call_defs Let_def)

lemma on_event_keeps_promise:
  assumes "on_event cfg t e s = Inr s'" and "promise s = Some r"
  shows "promise s' = Some r"
proof (cases e)
  case (Data chunk)
  with assms(1) have "on_data cfg t chunk s = Inr s'" by simp
  from on_data_cases [OF this] assms(2) show ?thesis
    by (auto intro: on_reply_keeps_promise)
qed (use assms in \<open>auto simp: on_timeout_def on_error_def on_end_def call_defs split: if_splits\<close>)

lemma run_events_keeps_promise:
  assumes "run_events cfg t evs s = Inr s'" and "promise s = Some r"
  shows "promise s' = Some r"
  using assms
proof (induction evs arbitrary: s)
  case Nil
  then show ?case by simp
next
  case (Cons e evs)
  from Cons.prems(1) obtain s1 where e: "on_event cfg t e s = Inr s1"
    and r: "run_events cfg t evs s1 = Inr s'"
    by (auto split: sum.splits)
  from e Cons.prems(2) have "promise s1 = Some r" by (rule on_event_keeps_promise)
  with r show ?case by (rule Cons.IH)
qed

lemma await_session_pending_prefix:
  assumes "run_events cfg t evs s = Inr s'" and "promise s' = None"
  shows "await_session cfg t (evs @ es) s = await_session cfg t es s'"
  using assms
proof (induction evs arbitrary: s)
  case Nil
  then show ?case by simp
next
  case (Cons e evs)
  from Cons.prems(1) obtain s1 where e: "on_event cfg t e s = Inr s1"
    and r: "run_events cfg t evs s1 = Inr s'"
    by (auto split: sum.splits)
  have "promise s = None"
  proof (cases "promise s")
    case (Some r0)
    with Cons.prems(1) have "promise s' = Some r0" by (rule run_events_keeps_promise)
    with Cons.prems(2) show ?thesis by simp
  qed
  then show ?case
    using e Cons.IH [OF r Cons.prems(2)] by simp
qed

text \<open>
  Claim C2. A session that has reached step 3 and is not yet resolved, and receives a
  reply whose last non-empty line starts with a three-digit code \<open>c\<close>, resolves right
  there: the outcome carries \<open>c\<close> and the line, and is a success exactly when
  \<open>200 \<le> c < 300\<close> (so a 5xx and every other code give a non-success). In all
  cases the timer is cleared, \<open>QUIT\<close> is written and the socket is ended in the same
  callback, before any reply to \<open>QUIT\<close>.
\<close>

theorem rcpt_reply_resolves:
  assumes reach: "smtpVerifyMailbox cfg mxHost targetEmail evs = Inr s"
    and st: "step s = 3" and nf: "\<not> finished s"
    and fr: "endsWith (dataBuffer s @ chunk) CRLF"
    and ne: "nonempty_lines (dataBuffer s @ chunk) \<noteq> []"
    and pc: "parseCode (last (nonempty_lines (dataBuffer s @ chunk))) = Some c"
  shows "let r = \<lparr>success = (200 \<le> c \<and> c < 300), code = Some c,
                   message = Some (last (nonempty_lines (dataBuffer s @ chunk)))\<rparr> in
    smtpVerifyMailbox cfg mxHost targetEmail (evs @ [Data chunk]) =
      Inr (s\<lparr>dataBuffer := [], finished := True, timer_pending := False, promise := Some r,
             calls := calls s @
               [ClearTimeout, SocketWrite (''QUIT'' @ CRLF), SocketEnd None, Resolve r]\<rparr>) \<and>
    await_smtpVerifyMailbox cfg mxHost targetEmail (evs @ [Data chunk]) = Settled r"
proof -
  define l where "l = last (nonempty_lines (dataBuffer s @ chunk))"
  define r where "r = \<lparr>success = (200 \<le> c \<and> c < 300), code = Some c, message = Some l\<rparr>"
  define s' where "s' = s\<lparr>dataBuffer := [], finished := True, timer_pending := False,
    promise := Some r,
    calls := calls s @ [ClearTimeout, SocketWrite (''QUIT'' @ CRLF), SocketEnd None, Resolve r]\<rparr>"
  from reach have "agree s" by (rule session_agree)
  with nf have pn: "promise s = None" by (simp add: agree_def)
  have "on_data cfg targetEmail chunk s = Inr (on_reply cfg targetEmail c l (s\<lparr>dataBuffer := []\<rparr>))"
    unfolding l_def using fr ne pc by (rule on_data_framed)
  also have "on_reply cfg targetEmail c l (s\<lparr>dataBuffer := []\<rparr>) = s'"
    using st pn by (simp add: on_reply_def call_defs Let_def s'_def r_def)
  finally have step: "on_event cfg targetEmail (Data chunk) s = Inr s'" by simp
  from reach have run: "run_events cfg targetEmail evs (start cfg mxHost) = Inr s"
    by (simp add: smtpVerifyMailbox_def)
  have 1: "smtpVerifyMailbox cfg mxHost targetEmail (evs @ [Data chunk]) = Inr s'"
    using run step by (simp add: smtpVerifyMailbox_def run_events_append)
  have "await_session cfg targetEmail (evs @ [Data chunk]) (start cfg mxHost) =
      await_session cfg targetEmail [Data chunk] s"
    using run pn by (rule await_session_pending_prefix)
  also have "\<dots> = Settled r"
    using pn step by (simp add: s'_def)
  finally have 2: "await_smtpVerifyMailbox cfg mxHost targetEmail (evs @ [Data chunk]) = Settled r"
    by (simp add: await_smtpVerifyMailbox_def)
  from 1 2 show ?thesis
    by (simp add: Let_def s'_def r_def l_def)
qed


lemmas eval_defs =
  smtpVerifyMailbox_def await_smtpVerifyMailbox_def start_def on_data_def on_reply_def
  on_timeout_def on_error_def on_end_def call_defs
  CRLF_def endsWith_def nonempty_lines_def split_def parseCode_def is_digit_def
  parseInt10_def digit_value_def default_config_def SMTP_TIMEOUT_MS_def reply_def Let_def

theorem rcpt_reply_resolves_witness:
  "smtpVerifyMailbox default_config ''mx'' ''a@b.co''
     [reply ''220 hi'', reply ''250 ok'', reply ''250 ok''] =
     Inr \<lparr>dataBuffer = [], step = 3, finished = False, timer_pending = True, promise = None,
          calls = [CreateConnection 25 ''mx'', SetTimeout 15000,
                   SocketWrite (''HELO example.com'' @ CRLF),
                   SocketWrite (''MAIL FROM:<verify@example.com>'' @ CRLF),
                   SocketWrite (''RCPT TO:<a@b.co>'' @ CRLF)]\<rparr> \<and>
   smtpVerifyMailbox default_config ''mx'' ''a@b.co''
     [reply ''220 hi'', reply ''250 ok'', reply ''250 ok'', reply ''250 ok''] =
     Inr \<lparr>dataBuffer = [], step = 3, finished = True, timer_pending = False,
          promise = Some \<lparr>success = True, code = Some 250, message = Some ''250 ok''\<rparr>,
          calls = [CreateConnection 25 ''mx'', SetTimeout 15000,
                   SocketWrite (''HELO example.com'' @ CRLF),
                   SocketWrite (''MAIL FROM:<verify@example.com>'' @ CRLF),
                   SocketWrite (''RCPT TO:<a@b.co>'' @ CRLF),
                   ClearTimeout, SocketWrite (''QUIT'' @ CRLF), SocketEnd None,
                   Resolve \<lparr>success = True, code = Some 250, message = Some ''250 ok''\<rparr>]\<rparr> \<and>
   await_smtpVerifyMailbox default_config ''mx'' ''a@b.co''
     [reply ''220 hi'', reply ''250 ok'', reply ''250 ok'', reply ''250 ok''] =
     Settled \<lparr>success = True, code = Some 250, message = Some ''250 ok''\<rparr> \<and>
   await_smtpVerifyMailbox default_config ''mx'' ''a@b.co''
     [reply ''220 hi'', reply ''250 ok'', reply ''250 ok'', reply ''550 no''] =
     Settled \<lparr>success = False, code = Some 550, message = Some ''550 no''\<rparr> \<and>
   await_smtpVerifyMailbox default_config ''mx'' ''a@b.co''
     [reply ''220 hi'', reply ''250 ok'', reply ''250 ok'', reply ''450 later''] =
     Settled \<lparr>success = False, code = Some 450, message = Some ''450 later''\<rparr>"
proof -
  define S where "S = \<lparr>dataBuffer = [], step = 3, finished = False, timer_pending = True,
     promise = None,
     calls = [CreateConnection 25 ''mx'', SetTimeout 15000,
              SocketWrite (''HELO example.com'' @ CRLF),
              SocketWrite (''MAIL FROM:<verify@example.com>'' @ CRLF),
              SocketWrite (''RCPT TO:<a@b.co>'' @ CRLF)]\<rparr>"
  have reach: "smtpVerifyMailbox default_config ''mx'' ''a@b.co''
     [reply ''220 hi'', reply ''250 ok'', reply ''250 ok''] = Inr S"
    by (simp add: eval_defs S_def)
  have st: "step S = 3" and nf: "\<not> finished S"
    by (simp_all add: S_def)
  have fr: "endsWith (dataBuffer S @ l @ CRLF) CRLF" for l
    by (simp add: S_def endsWith_def)
  have ne: "nonempty_lines (dataBuffer S @ ''250 ok'' @ CRLF) \<noteq> []"
    "nonempty_lines (dataBuffer S @ ''550 no'' @ CRLF) \<noteq> []"
    "nonempty_lines (dataBuffer S @ ''450 later'' @ CRLF) \<noteq> []"
    by (simp_all add: S_def eval_defs)
  have pc: "parseCode (last (nonempty_lines (dataBuffer S @ ''250 ok'' @ CRLF))) = Some 250"
    "parseCode (last (nonempty_lines (dataBuffer S @ ''550 no'' @ CRLF))) = Some 550"
    "parseCode (last (nonempty_lines (dataBuffer S @ ''450 later'' @ CRLF))) = Some 450"
    by (simp_all add: S_def eval_defs)
  have ls: "last (nonempty_lines (dataBuffer S @ ''250 ok'' @ CRLF)) = ''250 ok''"
    "last (nonempty_lines (dataBuffer S @ ''550 no'' @ CRLF)) = ''550 no''"
    "last (nonempty_lines (dataBuffer S @ ''450 later'' @ CRLF)) = ''450 later''"
    by (simp_all add: S_def eval_defs)
  note a = rcpt_reply_resolves [OF reach st nf fr ne(1) pc(1), unfolded Let_def ls]
  note b = rcpt_reply_resolves [OF reach st nf fr ne(2) pc(2), unfolded Let_def ls]
  note c = rcpt_reply_resolves [OF reach st nf fr ne(3) pc(3), unfolded Let_def ls]
  from reach a b c show ?thesis
    by (simp add: reply_def S_def)
qed


text \<open>
  Claim C5, as the code has it. At step 3, when the last non-empty line of a
  CRLF-terminated buffer does not start with three digits, the callback produces no
  outcome: it empties the buffer and returns. Nothing is written, the timer keeps
  running, the step stays 3 and a pending promise stays pending; the session is resolved
  by a later event.
\<close>

theorem malformed_reply_leaves_session_pending:
  assumes st: "step s = 3"
    and fr: "endsWith (dataBuffer s @ chunk) CRLF"
    and ne: "nonempty_lines (dataBuffer s @ chunk) \<noteq> []"
    and pc: "parseCode (last (nonempty_lines (dataBuffer s @ chunk))) = None"
  shows "on_event cfg targetEmail (Data chunk) s = Inr (s\<lparr>dataBuffer := []\<rparr>) \<and>
    await_session cfg targetEmail [Data chunk] s =
      (case promise s of None \<Rightarrow> Pending | Some r \<Rightarrow> Settled r)"
proof -
  have 1: "on_event cfg targetEmail (Data chunk) s = Inr (s\<lparr>dataBuffer := []\<rparr>)"
    using fr ne pc by (simp add: on_data_def Let_def)
  then have 2: "await_session cfg targetEmail [Data chunk] s =
      (case promise s of None \<Rightarrow> Pending | Some r \<Rightarrow> Settled r)"
    by (simp split: option.splits)
  from 1 2 show ?thesis ..
qed

theorem malformed_reply_leaves_session_pending_witness:
  "endsWith (''hello'' @ CRLF) CRLF \<and>
   nonempty_lines (''hello'' @ CRLF) = [''hello''] \<and>
   parseCode ''hello'' = None \<and>
   on_event default_config ''a@b.co'' (Data (''hello'' @ CRLF))
     \<lparr>dataBuffer = [], step = 3, finished = False, timer_pending = True, promise = None,
      calls = [CreateConnection 25 ''mx'']\<rparr> =
     Inr \<lparr>dataBuffer = [], step = 3, finished = False, timer_pending = True, promise = None,
          calls = [CreateConnection 25 ''mx'']\<rparr> \<and>
   await_session default_config ''a@b.co'' [Data (''hello'' @ CRLF)]
     \<lparr>dataBuffer = [], step = 3, finished = False, timer_pending = True, promise = None,
      calls = [CreateConnection 25 ''mx'']\<rparr> = Pending"
proof -
  define S where "S = \<lparr>dataBuffer = [], step = 3, finished = False, timer_pending = True,
     promise = None, calls = [CreateConnection 25 ''mx'']\<rparr>"
  have st: "step S = 3"
    by (simp add: S_def)
  have fr: "endsWith (dataBuffer S @ ''hello'' @ CRLF) CRLF"
    by (simp add: S_def endsWith_def)
  have ls: "nonempty_lines (dataBuffer S @ ''hello'' @ CRLF) = [''hello'']"
    by (simp add: S_def eval_defs)
  then have ne: "nonempty_lines (dataBuffer S @ ''hello'' @ CRLF) \<noteq> []"
    by simp
  have pc: "parseCode ''hello'' = None"
    by (simp add: eval_defs)
  have pc': "parseCode (last (nonempty_lines (dataBuffer S @ ''hello'' @ CRLF))) = None"
    unfolding ls using pc by simp
  from fr ls pc
    malformed_reply_leaves_session_pending [OF st fr ne pc', of default_config "''a@b.co''"]
  show ?thesis
    by (simp add: S_def)
qed

text \<open>
  Claim C5 as the specification states it (a malformed line at step 3 gives an
  inconclusive outcome, as a 4xx does) fails: after the greeting, the \<open>HELO\<close> and the
  \<open>MAIL FROM\<close> replies, the line \<open>hello\<close> leaves the promise pending, where
  \<open>450 later\<close> settles it.
\<close>

theorem malformed_rcpt_reply_counterexample:
  "smtpVerifyMailbox default_config ''mx'' ''a@b.co''
     [reply ''220 hi'', reply ''250 ok'', reply ''250 ok'', reply ''hello''] =
     Inr \<lparr>dataBuffer = [], step = 3, finished = False, timer_pending = True, promise = None,
          calls = [CreateConnection 25 ''mx'', SetTimeout 15000,
                   SocketWrite (''HELO example.com'' @ CRLF),
                   SocketWrite (''MAIL FROM:<verify@example.com>'' @ CRLF),
                   SocketWrite (''RCPT TO:<a@b.co>'' @ CRLF)]\<rparr> \<and>
   await_smtpVerifyMailbox default_config ''mx'' ''a@b.co''
     [reply ''220 hi'', reply ''250 ok'', reply ''250 ok'', reply ''hello''] = Pending \<and>
   await_smtpVerifyMailbox default_config ''mx'' ''a@b.co''
     [reply ''220 hi'', reply ''250 ok'', reply ''250 ok'', reply ''450 later''] =
     Settled \<lparr>success = False, code = Some 450, message = Some ''450 later''\<rparr>"
  by (simp add: eval_defs)


text \<open>
  Claim C6, as the code has it. At steps 0, 1 and 2 the callback tests the parsed code
  against 400 only: below 400 (every 2xx, but also a 1xx or a 3xx) the next command of the
  sequence \<open>HELO\<close>, \<open>MAIL FROM\<close>, \<open>RCPT TO\<close> is written and the step advances; from 400
  on the callback writes no further command, clears the timer, ends the socket with
  \<open>QUIT\<close> and resolves with a non-success carrying the code.
\<close>

theorem next_command_sent_below_400:
  assumes st: "step s < 3"
    and fr: "endsWith (dataBuffer s @ chunk) CRLF"
    and ne: "nonempty_lines (dataBuffer s @ chunk) \<noteq> []"
    and pc: "parseCode (last (nonempty_lines (dataBuffer s @ chunk))) = Some c"
  shows "on_event cfg targetEmail (Data chunk) s =
    Inr (if c \<ge> 400
         then s\<lparr>dataBuffer := [], finished := True, timer_pending := False,
                promise := (case promise s of
                   None \<Rightarrow> Some \<lparr>success = False, code = Some c,
                       message = Some (last (nonempty_lines (dataBuffer s @ chunk)))\<rparr>
                 | Some r0 \<Rightarrow> Some r0),
                calls := calls s @
                  [ClearTimeout, SocketEnd (Some (''QUIT'' @ CRLF)),
                   Resolve \<lparr>success = False, code = Some c,
                     message = Some (last (nonempty_lines (dataBuffer s @ chunk)))\<rparr>]\<rparr>
         else s\<lparr>dataBuffer := [], step := Suc (step s),
                calls := calls s @
                  [SocketWrite
                    ([''HELO '' @ HELLO_DOMAIN cfg,
                      ''MAIL FROM:<'' @ PROBE_SENDER cfg @ ''>'',
                      ''RCPT TO:<'' @ targetEmail @ ''>''] ! step s @ CRLF)]\<rparr>)"
proof -
  define l where "l = last (nonempty_lines (dataBuffer s @ chunk))"
  have "on_data cfg targetEmail chunk s =
      Inr (on_reply cfg targetEmail c l (s\<lparr>dataBuffer := []\<rparr>))"
    unfolding l_def using fr ne pc by (rule on_data_framed)
  moreover from st have "step s = 0 \<or> step s = 1 \<or> step s = 2"
    by arith
  ultimately show ?thesis
    unfolding l_def [symmetric]
    by (auto simp: on_reply_def call_defs)
qed

theorem next_command_sent_below_400_witness:
  "step (start default_config ''mx'') < 3 \<and>
   parseCode ''399 odd'' = Some 399 \<and>
   on_event default_config ''a@b.co'' (Data (''399 odd'' @ CRLF)) (start default_config ''mx'') =
     Inr \<lparr>dataBuffer = [], step = 1, finished = False, timer_pending = True, promise = None,
          calls = [CreateConnection 25 ''mx'', SetTimeout 15000,
                   SocketWrite (''HELO example.com'' @ CRLF)]\<rparr> \<and>
   parseCode ''400 no'' = Some 400 \<and>
   on_event default_config ''a@b.co'' (Data (''400 no'' @ CRLF)) (start default_config ''mx'') =
     Inr \<lparr>dataBuffer = [], step = 0, finished = True, timer_pending = False,
          promise = Some \<lparr>success = False, code = Some 400, message = Some ''400 no''\<rparr>,
          calls = [CreateConnection 25 ''mx'', SetTimeout 15000, ClearTimeout,
                   SocketEnd (Some (''QUIT'' @ CRLF)),
                   Resolve \<lparr>success = False, code = Some 400, message = Some ''400 no''\<rparr>]\<rparr>"
proof -
  define S where "S = start default_config ''mx''"
  have st: "step S < 3"
    by (simp add: S_def start_def)
  have fr: "endsWith (dataBuffer S @ l @ CRLF) CRLF" for l
    by (simp add: S_def start_def endsWith_def)
  have ls: "nonempty_lines (dataBuffer S @ ''399 odd'' @ CRLF) = [''399 odd'']"
    "nonempty_lines (dataBuffer S @ ''400 no'' @ CRLF) = [''400 no'']"
    by (simp_all add: S_def eval_defs)
  then have ne: "nonempty_lines (dataBuffer S @ ''399 odd'' @ CRLF) \<noteq> []"
    "nonempty_lines (dataBuffer S @ ''400 no'' @ CRLF) \<noteq> []"
    by simp_all
  have pc: "parseCode ''399 odd'' = Some 399" "parseCode ''400 no'' = Some 400"
    by (simp_all add: eval_defs)
  have pc': "parseCode (last (nonempty_lines (dataBuffer S @ ''399 odd'' @ CRLF))) = Some 399"
    "parseCode (last (nonempty_lines (dataBuffer S @ ''400 no'' @ CRLF))) = Some 400"
    unfolding ls using pc by simp_all
  note a = next_command_sent_below_400
    [OF st fr ne(1) pc'(1), of default_config "''a@b.co''", unfolded ls]
  note b = next_command_sent_below_400
    [OF st fr ne(2) pc'(2), of default_config "''a@b.co''", unfolded ls]
  from st pc a b show ?thesis
    by (simp add: S_def start_def default_config_def SMTP_TIMEOUT_MS_def)
qed

text \<open>
  Claim C6 as the specification states it (no next command for a code outside
  \<open>[200, 300)\<close>) fails: a greeting with the code 354 is answered with \<open>HELO\<close>.
\<close>

theorem next_command_only_after_2xx_counterexample:
  "parseCode ''354 go'' = Some 354 \<and>
   smtpVerifyMailbox default_config ''mx'' ''a@b.co'' [reply ''354 go''] =
     Inr \<lparr>dataBuffer = [], step = 1, finished = False, timer_pending = True, promise = None,
          calls = [CreateConnection 25 ''mx'', SetTimeout 15000,
                   SocketWrite (''HELO example.com'' @ CRLF)]\<rparr>"
  by (simp add: eval_defs)


section \<open>Sorting the MX records\<close>

lemma mset_insert_by: "mset (insert_by cmp x xs) = add_mset x (mset xs)"
  by (induction xs) auto

lemma mset_array_sort: "mset (array_sort cmp xs) = mset xs"
  by (induction xs) (auto simp: mset_insert_by)

lemma set_insert_by: "set (insert_by cmp x xs) = insert x (set xs)"
  by (induction xs) auto

lemma sorted_insert_by_priority:
  "sorted (map priority xs) \<Longrightarrow> sorted (map priority (insert_by by_priority x xs))"
  by (induction xs) (auto simp: set_insert_by by_priority_def)

lemma sorted_array_sort: "sorted (map priority (array_sort by_priority xs))"
  by (induction xs) (auto intro: sorted_insert_by_priority)

text \<open>Records of equal priority keep the order the resolver gave them.\<close>

lemma filter_insert_by_priority:
  "sorted (map priority xs) \<Longrightarrow>
   filter (\<lambda>m. priority m = p) (insert_by by_priority x xs) =
     (if priority x = p then x # filter (\<lambda>m. priority m = p) xs
      else filter (\<lambda>m. priority m = p) xs)"
  by (induction xs) (auto simp: by_priority_def)

lemma array_sort_stable:
  "filter (\<lambda>m. priority m = p) (array_sort by_priority xs) = filter (\<lambda>m. priority m = p) xs"
  by (induction xs) (auto simp: filter_insert_by_priority sorted_array_sort)

lemma resolveMx_answer:
  assumes "recs \<noteq> []"
  shows "resolveMx (None, Some recs) = Inr (array_sort by_priority recs)"
  using assms by (simp add: resolveMx_def)

lemma resolveMx_nonempty: "resolveMx answer = Inr mxs \<Longrightarrow> mxs \<noteq> []"
  by (cases answer)
    (auto simp: resolveMx_def dest: arg_cong [where f = mset] simp: mset_array_sort
       split: option.splits if_splits)

section \<open>The loop over the exchangers\<close>

lemma try_hosts_accesses:
  "\<exists>k\<le>length mxs. fst (try_hosts cfg nt email n mxs) =
     map (SmtpConnect \<circ> exchange) (take k mxs)"
proof (induction mxs arbitrary: n)
  case Nil
  then show ?case by simp
next
  case (Cons mx rest)
  from Cons.IH [of "Suc n"] obtain k where k: "k \<le> length rest"
    and t: "fst (try_hosts cfg nt email (Suc n) rest) = map (SmtpConnect \<circ> exchange) (take k rest)"
    by blast
  have one: "[SmtpConnect (exchange mx)] = map (SmtpConnect \<circ> exchange) (take (Suc 0) (mx # rest))"
    by simp
  have more: "SmtpConnect (exchange mx) # fst (try_hosts cfg nt email (Suc n) rest) =
      map (SmtpConnect \<circ> exchange) (take (Suc k) (mx # rest))"
    using t by simp
  have "fst (try_hosts cfg nt email n (mx # rest)) = [SmtpConnect (exchange mx)] \<or>
      fst (try_hosts cfg nt email n (mx # rest)) =
        SmtpConnect (exchange mx) # fst (try_hosts cfg nt email (Suc n) rest)"
    by (auto simp: Let_def split: awaited.splits prod.splits)
  then show ?case
  proof
    assume "fst (try_hosts cfg nt email n (mx # rest)) = [SmtpConnect (exchange mx)]"
    with one have "fst (try_hosts cfg nt email n (mx # rest)) =
        map (SmtpConnect \<circ> exchange) (take (Suc 0) (mx # rest))"
      by simp
    moreover have "Suc 0 \<le> length (mx # rest)" by simp
    ultimately show ?thesis by blast
  next
    assume "fst (try_hosts cfg nt email n (mx # rest)) =
        SmtpConnect (exchange mx) # fst (try_hosts cfg nt email (Suc n) rest)"
    with more have "fst (try_hosts cfg nt email n (mx # rest)) =
        map (SmtpConnect \<circ> exchange) (take (Suc k) (mx # rest))"
      by simp
    moreover from k have "Suc k \<le> length (mx # rest)" by simp
    ultimately show ?thesis by blast
  qed
qed

lemma try_hosts_skip:
  assumes "k \<le> length mxs"
    and "\<forall>j<k. \<exists>r. await_smtpVerifyMailbox cfg (exchange (mxs ! j)) email
            (nt (n + j) (exchange (mxs ! j))) = Settled r \<and>
          \<not> is_accepting r \<and> \<not> is_rejecting r"
  shows "try_hosts cfg nt email n mxs =
    (map (SmtpConnect \<circ> exchange) (take k mxs) @ fst (try_hosts cfg nt email (n + k) (drop k mxs)),
     snd (try_hosts cfg nt email (n + k) (drop k mxs)))"
  using assms
proof (induction k arbitrary: n mxs)
  case 0
  then show ?case by simp
next
  case (Suc k)
  from Suc.prems(1) obtain mx rest where mxs: "mxs = mx # rest" and k: "k \<le> length rest"
    by (cases mxs) auto
  from Suc.prems(2) [rule_format, of 0] obtain r
    where r: "await_smtpVerifyMailbox cfg (exchange mx) email (nt n (exchange mx)) = Settled r"
      and nd: "\<not> is_accepting r" "\<not> is_rejecting r"
    by (auto simp: mxs)
  have rest: "\<forall>j<k. \<exists>r. await_smtpVerifyMailbox cfg (exchange (rest ! j)) email
            (nt (Suc n + j) (exchange (rest ! j))) = Settled r \<and>
          \<not> is_accepting r \<and> \<not> is_rejecting r"
  proof (intro allI impI)
    fix j assume "j < k"
    then have "Suc j < Suc k" by simp
    from Suc.prems(2) [rule_format, OF this] show "\<exists>r. await_smtpVerifyMailbox cfg
        (exchange (rest ! j)) email (nt (Suc n + j) (exchange (rest ! j))) = Settled r \<and>
        \<not> is_accepting r \<and> \<not> is_rejecting r"
      by (simp add: mxs)
  qed
  from Suc.IH [OF k rest] r nd show ?case
    by (simp add: mxs Let_def split: prod.splits)
qed


lemma rejecting_not_accepting: "is_rejecting r \<Longrightarrow> \<not> is_accepting r"
  by (auto simp: is_rejecting_def is_accepting_def split: option.splits)

text \<open>
  An outcome passes neither test of the loop exactly when it is not a success with a
  code in \<open>[200, 300)\<close> and carries no code in \<open>[500, 600)\<close>.
\<close>

lemma outside_both_bands:
  "\<not> is_accepting r \<and> \<not> is_rejecting r \<longleftrightarrow>
     \<not> (success r \<and> (\<exists>c. code r = Some c \<and> 200 \<le> c \<and> c < 300)) \<and>
     \<not> (\<exists>c. code r = Some c \<and> 500 \<le> c \<and> c < 600)"
  by (cases "code r") (auto simp: is_accepting_def is_rejecting_def)

text \<open>
  Claim C3. \<open>verifyEmail\<close> probes the exchangers one at a time, in the order of the
  list. While an outcome is neither a success with a code in \<open>[200, 300)\<close> nor carries a
  code in \<open>[500, 600)\<close> (a 4xx, a network error, a timeout), the next host is probed. The
  first outcome that is a success with a code in \<open>[200, 300)\<close> gives \<open>deliverable\<close>, the
  first with a code in \<open>[500, 600)\<close> gives \<open>undeliverable\<close>, each with the host, the code
  and the message, and no further host is contacted; when no host is left the answer has the status
  \<open>unknown\<close> and \<open>valid = false\<close>.
\<close>

theorem first_definitive_host_decides:
  assumes valid: "isEmailFormatValid email"
    and dom: "getDomain email = Some domain"
    and mx: "resolveMx (dns nw domain) = Inr mxs"
    and k: "k \<le> length mxs"
    and skip: "\<forall>j<k. \<exists>r. await_smtpVerifyMailbox cfg (exchange (mxs ! j)) email
            (net nw j (exchange (mxs ! j))) = Settled r \<and>
          \<not> (success r \<and> (\<exists>c. code r = Some c \<and> 200 \<le> c \<and> c < 300)) \<and>
          \<not> (\<exists>c. code r = Some c \<and> 500 \<le> c \<and> c < 600)"
  shows
    "(k < length mxs \<and>
      await_smtpVerifyMailbox cfg (exchange (mxs ! k)) email (net nw k (exchange (mxs ! k))) =
        Settled r \<and>
      success r \<and> code r = Some c \<and> 200 \<le> c \<and> c < 300 \<longrightarrow>
      verifyEmail cfg nw email =
        (DnsQuery domain # map (SmtpConnect \<circ> exchange) (take (Suc k) mxs),
         Settled \<lparr>status = ''deliverable'', valid = True, reason = None,
           smtpHostTried = Some (exchange (mxs ! k)), smtpCode = Some c,
           smtpMessage = message r\<rparr>)) \<and>
     (k < length mxs \<and>
      await_smtpVerifyMailbox cfg (exchange (mxs ! k)) email (net nw k (exchange (mxs ! k))) =
        Settled r \<and>
      code r = Some c \<and> 500 \<le> c \<and> c < 600 \<longrightarrow>
      verifyEmail cfg nw email =
        (DnsQuery domain # map (SmtpConnect \<circ> exchange) (take (Suc k) mxs),
         Settled \<lparr>status = ''undeliverable'', valid = False, reason = None,
           smtpHostTried = Some (exchange (mxs ! k)), smtpCode = Some c,
           smtpMessage = message r\<rparr>)) \<and>
     (k = length mxs \<longrightarrow>
      verifyEmail cfg nw email =
        (DnsQuery domain # map (SmtpConnect \<circ> exchange) mxs,
         Settled \<lparr>status = ''unknown'', valid = False,
           reason = Some ''All MX hosts returned temporary or ambiguous responses'',
           smtpHostTried = None, smtpCode = None, smtpMessage = None\<rparr>))"
proof -
  let ?rest = "try_hosts cfg (net nw) email k (drop k mxs)"
  have skip': "\<forall>j<k. \<exists>r. await_smtpVerifyMailbox cfg (exchange (mxs ! j)) email
            (net nw j (exchange (mxs ! j))) = Settled r \<and>
          \<not> is_accepting r \<and> \<not> is_rejecting r"
    using skip unfolding outside_both_bands .
  have loop: "try_hosts cfg (net nw) email 0 mxs =
      (map (SmtpConnect \<circ> exchange) (take k mxs) @ fst ?rest, snd ?rest)"
    using try_hosts_skip [OF k, of cfg email "net nw" 0] skip' by simp
  have whole: "verifyEmail cfg nw email =
      (DnsQuery domain # map (SmtpConnect \<circ> exchange) (take k mxs) @ fst ?rest, snd ?rest)"
    using valid dom mx loop by (simp add: verifyEmail_def)
  have at_k: "drop k mxs = mxs ! k # drop (Suc k) mxs" "take (Suc k) mxs = take k mxs @ [mxs ! k]"
    if "k < length mxs"
    using that by (simp_all add: Cons_nth_drop_Suc take_Suc_conv_app_nth)
  have accept: "verifyEmail cfg nw email =
        (DnsQuery domain # map (SmtpConnect \<circ> exchange) (take (Suc k) mxs),
         Settled \<lparr>status = ''deliverable'', valid = True, reason = None,
           smtpHostTried = Some (exchange (mxs ! k)), smtpCode = Some c,
           smtpMessage = message r\<rparr>)"
    if "k < length mxs"
      and "await_smtpVerifyMailbox cfg (exchange (mxs ! k)) email
        (net nw k (exchange (mxs ! k))) = Settled r"
      and "success r" "code r = Some c" "200 \<le> c" "c < 300"
  proof -
    from that(3-6) have "is_accepting r"
      by (simp add: is_accepting_def)
    with that(2) have "?rest = ([SmtpConnect (exchange (mxs ! k))],
        Settled (deliverable (exchange (mxs ! k)) r))"
      by (simp add: at_k(1) [OF that(1)] Let_def)
    with whole that(4) show ?thesis
      by (simp add: at_k(2) [OF that(1)] deliverable_def)
  qed
  have reject: "verifyEmail cfg nw email =
        (DnsQuery domain # map (SmtpConnect \<circ> exchange) (take (Suc k) mxs),
         Settled \<lparr>status = ''undeliverable'', valid = False, reason = None,
           smtpHostTried = Some (exchange (mxs ! k)), smtpCode = Some c,
           smtpMessage = message r\<rparr>)"
    if "k < length mxs"
      and "await_smtpVerifyMailbox cfg (exchange (mxs ! k)) email
        (net nw k (exchange (mxs ! k))) = Settled r"
      and "code r = Some c" "500 \<le> c" "c < 600"
  proof -
    from that(3-5) have rej: "is_rejecting r"
      by (simp add: is_rejecting_def)
    then have "\<not> is_accepting r"
      by (rule rejecting_not_accepting)
    with rej that(2) have "?rest = ([SmtpConnect (exchange (mxs ! k))],
        Settled (undeliverable (exchange (mxs ! k)) r))"
      by (simp add: at_k(1) [OF that(1)] Let_def)
    with whole that(3) show ?thesis
      by (simp add: at_k(2) [OF that(1)] undeliverable_def)
  qed
  have none: "verifyEmail cfg nw email =
        (DnsQuery domain # map (SmtpConnect \<circ> exchange) mxs,
         Settled \<lparr>status = ''unknown'', valid = False,
           reason = Some ''All MX hosts returned temporary or ambiguous responses'',
           smtpHostTried = None, smtpCode = None, smtpMessage = None\<rparr>)"
    if "k = length mxs"
    using whole that by (simp add: unknown_def)
  from accept reject none show ?thesis
    by blast
qed


lemmas email_defs =
  isEmailFormatValid_def EMAIL_REGEX_def Some1_def not_space_at_def is_space_def
  getDomain_def split_def

lemmas mx_defs = resolveMx_def by_priority_def is_accepting_def is_rejecting_def

theorem first_definitive_host_decides_witness:
  "isEmailFormatValid ''a@b.co'' \<and> getDomain ''a@b.co'' = Some ''b.co'' \<and>
   resolveMx (dns two_host_network ''b.co'') =
     Inr [\<lparr>exchange = ''mx1'', priority = 10\<rparr>, \<lparr>exchange = ''mx2'', priority = 20\<rparr>] \<and>
   await_smtpVerifyMailbox default_config ''mx1'' ''a@b.co'' (net two_host_network 0 ''mx1'') =
     Settled \<lparr>success = False, code = Some 450, message = Some ''450 later''\<rparr> \<and>
   await_smtpVerifyMailbox default_config ''mx2'' ''a@b.co'' (net two_host_network 1 ''mx2'') =
     Settled \<lparr>success = False, code = Some 550, message = Some ''550 no''\<rparr> \<and>
   verifyEmail default_config two_host_network ''a@b.co'' =
     ([DnsQuery ''b.co'', SmtpConnect ''mx1'', SmtpConnect ''mx2''],
      Settled \<lparr>status = ''undeliverable'', valid = False, reason = None,
        smtpHostTried = Some ''mx2'', smtpCode = Some 550, smtpMessage = Some ''550 no''\<rparr>) \<and>
   verifyEmail default_config accepting_network ''a@b.co'' =
     ([DnsQuery ''b.co'', SmtpConnect ''mx''],
      Settled \<lparr>status = ''deliverable'', valid = True, reason = None,
        smtpHostTried = Some ''mx'', smtpCode = Some 250, smtpMessage = Some ''250 ok''\<rparr>) \<and>
   verifyEmail default_config three_host_network ''a@b.co'' =
     ([DnsQuery ''b.co'', SmtpConnect ''b'', SmtpConnect ''a'', SmtpConnect ''c''],
      Settled \<lparr>status = ''unknown'', valid = False,
        reason = Some ''All MX hosts returned temporary or ambiguous responses'',
        smtpHostTried = None, smtpCode = None, smtpMessage = None\<rparr>)"
proof -
  have valid: "isEmailFormatValid ''a@b.co''"
    by (simp add: email_defs)
  have dom: "getDomain ''a@b.co'' = Some ''b.co''"
    by (simp add: email_defs)
  \<comment> \<open>two hosts: 450, then 550\<close>
  define m2 where "m2 = [\<lparr>exchange = ''mx1'', priority = 10\<rparr>, \<lparr>exchange = ''mx2'', priority = 20\<rparr>]"
  have mx2: "resolveMx (dns two_host_network ''b.co'') = Inr m2"
    by (simp add: two_host_network_def mx_defs m2_def)
  have o1: "await_smtpVerifyMailbox default_config ''mx1'' ''a@b.co''
      (net two_host_network 0 ''mx1'') =
      Settled \<lparr>success = False, code = Some 450, message = Some ''450 later''\<rparr>"
    by (simp add: two_host_network_def eval_defs)
  have o2: "await_smtpVerifyMailbox default_config ''mx2'' ''a@b.co''
      (net two_host_network 1 ''mx2'') =
      Settled \<lparr>success = False, code = Some 550, message = Some ''550 no''\<rparr>"
    by (simp add: two_host_network_def eval_defs)
  have k2: "1 \<le> length m2"
    by (simp add: m2_def)
  have skip2: "\<forall>j<1. \<exists>r. await_smtpVerifyMailbox default_config (exchange (m2 ! j)) ''a@b.co''
            (net two_host_network j (exchange (m2 ! j))) = Settled r \<and>
          \<not> (success r \<and> (\<exists>c. code r = Some c \<and> 200 \<le> c \<and> c < 300)) \<and>
          \<not> (\<exists>c. code r = Some c \<and> 500 \<le> c \<and> c < 600)"
    using o1 by (simp add: m2_def)
  have a: "verifyEmail default_config two_host_network ''a@b.co'' =
     ([DnsQuery ''b.co'', SmtpConnect ''mx1'', SmtpConnect ''mx2''],
      Settled \<lparr>status = ''undeliverable'', valid = False, reason = None,
        smtpHostTried = Some ''mx2'', smtpCode = Some 550, smtpMessage = Some ''550 no''\<rparr>)"
    using first_definitive_host_decides [OF valid dom mx2 k2 skip2,
        of "\<lparr>success = False, code = Some 450, message = Some ''450 later''\<rparr>" 550]
      first_definitive_host_decides [OF valid dom mx2 k2 skip2,
        of "\<lparr>success = False, code = Some 550, message = Some ''550 no''\<rparr>" 550] o2
    by (simp add: m2_def)
  \<comment> \<open>one host: 250\<close>
  define m1 where "m1 = [\<lparr>exchange = ''mx'', priority = 5\<rparr>]"
  have mx1: "resolveMx (dns accepting_network ''b.co'') = Inr m1"
    by (simp add: accepting_network_def mx_defs m1_def)
  have o: "await_smtpVerifyMailbox default_config ''mx'' ''a@b.co''
      (net accepting_network 0 ''mx'') =
      Settled \<lparr>success = True, code = Some 250, message = Some ''250 ok''\<rparr>"
    by (simp add: accepting_network_def eval_defs)
  have k1: "0 \<le> length m1"
    by simp
  have skip1: "\<forall>j<0. \<exists>r. await_smtpVerifyMailbox default_config (exchange (m1 ! j)) ''a@b.co''
            (net accepting_network j (exchange (m1 ! j))) = Settled r \<and>
          \<not> (success r \<and> (\<exists>c. code r = Some c \<and> 200 \<le> c \<and> c < 300)) \<and>
          \<not> (\<exists>c. code r = Some c \<and> 500 \<le> c \<and> c < 600)"
    by simp
  have b: "verifyEmail default_config accepting_network ''a@b.co'' =
     ([DnsQuery ''b.co'', SmtpConnect ''mx''],
      Settled \<lparr>status = ''deliverable'', valid = True, reason = None,
        smtpHostTried = Some ''mx'', smtpCode = Some 250, smtpMessage = Some ''250 ok''\<rparr>)"
    using first_definitive_host_decides [OF valid dom mx1 k1 skip1,
        of "\<lparr>success = True, code = Some 250, message = Some ''250 ok''\<rparr>" 250] o
    by (simp add: m1_def)
  \<comment> \<open>three hosts, all silent\<close>
  define m3 where "m3 = [\<lparr>exchange = ''b'', priority = 10\<rparr>, \<lparr>exchange = ''a'', priority = 20\<rparr>,
     \<lparr>exchange = ''c'', priority = 30\<rparr>]"
  have mx3: "resolveMx (dns three_host_network ''b.co'') = Inr m3"
    by (simp add: three_host_network_def mx_defs m3_def)
  have t: "await_smtpVerifyMailbox default_config h ''a@b.co'' (net three_host_network j h) =
      Settled \<lparr>success = False, code = None, message = Some ''Timeout''\<rparr>" for h j
    by (simp add: three_host_network_def eval_defs)
  have k3: "3 \<le> length m3"
    by (simp add: m3_def)
  have skip3: "\<forall>j<3. \<exists>r. await_smtpVerifyMailbox default_config (exchange (m3 ! j)) ''a@b.co''
            (net three_host_network j (exchange (m3 ! j))) = Settled r \<and>
          \<not> (success r \<and> (\<exists>c. code r = Some c \<and> 200 \<le> c \<and> c < 300)) \<and>
          \<not> (\<exists>c. code r = Some c \<and> 500 \<le> c \<and> c < 600)"
    by (simp add: t)
  have c: "verifyEmail default_config three_host_network ''a@b.co'' =
     ([DnsQuery ''b.co'', SmtpConnect ''b'', SmtpConnect ''a'', SmtpConnect ''c''],
      Settled \<lparr>status = ''unknown'', valid = False,
        reason = Some ''All MX hosts returned temporary or ambiguous responses'',
        smtpHostTried = None, smtpCode = None, smtpMessage = None\<rparr>)"
    using first_definitive_host_decides [OF valid dom mx3 k3 skip3, of "\<lparr>success = False, code = None, message = Some ''Timeout''\<rparr>" 0]
    by (simp add: m3_def)
  from valid dom mx2 o1 o2 a b c show ?thesis
    by (simp add: m2_def)
qed


text \<open>
  Claim C8. \<open>resolveMx\<close> hands the records on sorted by ascending priority (the same
  records, none lost and none added), and \<open>verifyEmail\<close> contacts
  hosts in that order: the connections it opens are those of an initial part of the
  sorted list. With the priorities 20, 10 and 30 the host of priority 10 is contacted
  first, then that of 20, then that of 30.
\<close>

theorem hosts_contacted_in_priority_order:
  assumes valid: "isEmailFormatValid email"
    and dom: "getDomain email = Some domain"
    and ans: "dns nw domain = (None, Some recs)"
    and ne: "recs \<noteq> []"
  shows "resolveMx (dns nw domain) = Inr (array_sort by_priority recs) \<and>
    sorted (map priority (array_sort by_priority recs)) \<and>
    mset (array_sort by_priority recs) = mset recs \<and>
    (\<exists>k. k \<le> length recs \<and>
       fst (verifyEmail cfg nw email) =
         DnsQuery domain #
           map (SmtpConnect \<circ> exchange) (take k (array_sort by_priority recs)))"
proof -
  let ?mxs = "array_sort by_priority recs"
  have r: "resolveMx (dns nw domain) = Inr ?mxs"
    unfolding ans using ne by (rule resolveMx_answer)
  have len: "length ?mxs = length recs"
    using mset_array_sort [of by_priority recs] by (rule mset_eq_length)
  obtain k where k: "k \<le> length ?mxs"
    and t: "fst (try_hosts cfg (net nw) email 0 ?mxs) =
      map (SmtpConnect \<circ> exchange) (take k ?mxs)"
    using try_hosts_accesses [of ?mxs cfg "net nw" email 0] by blast
  have "fst (verifyEmail cfg nw email) = DnsQuery domain # fst (try_hosts cfg (net nw) email 0 ?mxs)"
    using valid dom r by (simp add: verifyEmail_def split: prod.splits)
  with t k len have "\<exists>k. k \<le> length recs \<and>
       fst (verifyEmail cfg nw email) =
         DnsQuery domain # map (SmtpConnect \<circ> exchange) (take k ?mxs)"
    by auto
  with r sorted_array_sort [of recs] mset_array_sort [of by_priority recs] show ?thesis
    by blast
qed

theorem hosts_contacted_in_priority_order_witness:
  "isEmailFormatValid ''a@b.co'' \<and> getDomain ''a@b.co'' = Some ''b.co'' \<and>
   dns three_host_network ''b.co'' =
     (None, Some [\<lparr>exchange = ''a'', priority = 20\<rparr>, \<lparr>exchange = ''b'', priority = 10\<rparr>,
                  \<lparr>exchange = ''c'', priority = 30\<rparr>]) \<and>
   resolveMx (dns three_host_network ''b.co'') =
     Inr [\<lparr>exchange = ''b'', priority = 10\<rparr>, \<lparr>exchange = ''a'', priority = 20\<rparr>,
          \<lparr>exchange = ''c'', priority = 30\<rparr>] \<and>
   sorted (map priority
     (array_sort by_priority
        [\<lparr>exchange = ''a'', priority = 20\<rparr>, \<lparr>exchange = ''b'', priority = 10\<rparr>,
         \<lparr>exchange = ''c'', priority = 30\<rparr>])) \<and>
   fst (verifyEmail default_config three_host_network ''a@b.co'') =
     [DnsQuery ''b.co'', SmtpConnect ''b'', SmtpConnect ''a'', SmtpConnect ''c'']"
proof -
  define recs where "recs = [\<lparr>exchange = ''a'', priority = 20\<rparr>, \<lparr>exchange = ''b'', priority = 10\<rparr>,
     \<lparr>exchange = ''c'', priority = 30\<rparr>]"
  have valid: "isEmailFormatValid ''a@b.co''"
    by (simp add: email_defs)
  have dom: "getDomain ''a@b.co'' = Some ''b.co''"
    by (simp add: email_defs)
  have ans: "dns three_host_network ''b.co'' = (None, Some recs)"
    by (simp add: three_host_network_def recs_def)
  have ne: "recs \<noteq> []"
    by (simp add: recs_def)
  have srt: "array_sort by_priority recs =
      [\<lparr>exchange = ''b'', priority = 10\<rparr>, \<lparr>exchange = ''a'', priority = 20\<rparr>,
       \<lparr>exchange = ''c'', priority = 30\<rparr>]"
    by (simp add: recs_def by_priority_def)
  note inst = hosts_contacted_in_priority_order [OF valid dom ans ne, of default_config]
  from inst have 1: "resolveMx (dns three_host_network ''b.co'') = Inr (array_sort by_priority recs)"
    and 2: "sorted (map priority (array_sort by_priority recs))"
    by blast+
  have t: "await_smtpVerifyMailbox default_config h ''a@b.co'' (net three_host_network j h) =
      Settled \<lparr>success = False, code = None, message = Some ''Timeout''\<rparr>" for h j
    by (simp add: three_host_network_def eval_defs)
  have 3: "fst (verifyEmail default_config three_host_network ''a@b.co'') =
     [DnsQuery ''b.co'', SmtpConnect ''b'', SmtpConnect ''a'', SmtpConnect ''c'']"
    using valid dom 1
    by (simp add: verifyEmail_def srt t mx_defs Let_def)
  from valid dom ans [unfolded recs_def] 1 [unfolded srt] 2 [unfolded recs_def] 3
  show ?thesis
    by blast
qed


section \<open>Events after the session has resolved\<close>

text \<open>
  The callbacks of the timer, of \<open>error\<close> and of \<open>end\<close> test \<open>finished\<close> first, so they
  leave a resolved session as it is.
\<close>

lemma guarded_callbacks_ignore_resolved:
  assumes "agree s" and "finished s"
  shows "on_event cfg t TimerExpired s = Inr s"
    and "on_event cfg t (SocketError msg) s = Inr s"
    and "on_event cfg t SocketClosed s = Inr s"
  using assms by (simp_all add: agree_def on_error_def on_end_def)

text \<open>
  On a session that is not resolved yet, each of them resolves it to a non-success
  without a code, and leaves no timer behind.
\<close>

lemma network_failures_resolve:
  assumes "agree s" and "\<not> finished s"
  shows "on_event cfg t TimerExpired s =
      Inr (s\<lparr>finished := True, timer_pending := False,
             promise := Some \<lparr>success = False, code = None, message = Some ''Timeout''\<rparr>,
             calls := calls s @ [SocketDestroy,
               Resolve \<lparr>success = False, code = None, message = Some ''Timeout''\<rparr>]\<rparr>)"
    and "on_event cfg t (SocketError msg) s =
      Inr (s\<lparr>finished := True, timer_pending := False,
             promise := Some \<lparr>success = False, code = None, message = Some msg\<rparr>,
             calls := calls s @ [ClearTimeout,
               Resolve \<lparr>success = False, code = None, message = Some msg\<rparr>]\<rparr>)"
    and "on_event cfg t SocketClosed s =
      Inr (s\<lparr>finished := True, timer_pending := False,
             promise := Some \<lparr>success = False, code = None,
               message = Some ''Connection ended unexpectedly''\<rparr>,
             calls := calls s @ [ClearTimeout,
               Resolve \<lparr>success = False, code = None,
                 message = Some ''Connection ended unexpectedly''\<rparr>]\<rparr>)"
  using assms by (simp_all add: agree_def on_timeout_def on_error_def on_end_def call_defs)

lemma outcome_without_code_is_skipped:
  "code r = None \<Longrightarrow> \<not> is_accepting r \<and> \<not> is_rejecting r"
  by (simp add: is_accepting_def is_rejecting_def)

text \<open>
  Claim C1 asks that an event after the resolution be a no-op. The \<open>data\<close> callback
  does not test \<open>finished\<close>: when the server answers the \<open>QUIT\<close> that followed the
  recipient's reply, the callback runs the branch of step 3 again. The promise keeps its
  first value, but the timer is cleared, \<open>QUIT\<close> is written, the socket is ended and
  \<open>resolve\<close> is called a second time.
\<close>

theorem reply_after_resolution_is_processed:
  "smtpVerifyMailbox default_config ''mx'' ''a@b.co''
     [reply ''220 hi'', reply ''250 ok'', reply ''250 ok'', reply ''250 ok'', reply ''221 bye''] =
     Inr \<lparr>dataBuffer = [], step = 3, finished = True, timer_pending = False,
          promise = Some \<lparr>success = True, code = Some 250, message = Some ''250 ok''\<rparr>,
          calls = [CreateConnection 25 ''mx'', SetTimeout 15000,
                   SocketWrite (''HELO example.com'' @ CRLF),
                   SocketWrite (''MAIL FROM:<verify@example.com>'' @ CRLF),
                   SocketWrite (''RCPT TO:<a@b.co>'' @ CRLF),
                   ClearTimeout, SocketWrite (''QUIT'' @ CRLF), SocketEnd None,
                   Resolve \<lparr>success = True, code = Some 250, message = Some ''250 ok''\<rparr>,
                   ClearTimeout, SocketWrite (''QUIT'' @ CRLF), SocketEnd None,
                   Resolve \<lparr>success = True, code = Some 221, message = Some ''221 bye''\<rparr>]\<rparr>"
  by (simp add: eval_defs)

text \<open>
  Claim C4 asks that after a code from 400 on at steps 0 to 2 no later step be executed,
  and that a 421 greeting never be followed by \<open>HELO\<close>. The callback that handles the 421
  resolves, ends the socket with \<open>QUIT\<close> and leaves the step at 0; when the server then
  answers the \<open>QUIT\<close> with 221, the unguarded \<open>data\<close> callback takes the reply for a
  greeting, calls \<open>send\<close> with \<open>HELO\<close> and moves to step 1.
\<close>

theorem helo_written_after_rejected_greeting:
  "smtpVerifyMailbox default_config ''mx'' ''a@b.co'' [reply ''421 busy''] =
     Inr \<lparr>dataBuffer = [], step = 0, finished = True, timer_pending = False,
          promise = Some \<lparr>success = False, code = Some 421, message = Some ''421 busy''\<rparr>,
          calls = [CreateConnection 25 ''mx'', SetTimeout 15000, ClearTimeout,
                   SocketEnd (Some (''QUIT'' @ CRLF)),
                   Resolve \<lparr>success = False, code = Some 421, message = Some ''421 busy''\<rparr>]\<rparr> \<and>
   smtpVerifyMailbox default_config ''mx'' ''a@b.co'' [reply ''421 busy'', reply ''221 bye''] =
     Inr \<lparr>dataBuffer = [], step = 1, finished = True, timer_pending = False,
          promise = Some \<lparr>success = False, code = Some 421, message = Some ''421 busy''\<rparr>,
          calls = [CreateConnection 25 ''mx'', SetTimeout 15000, ClearTimeout,
                   SocketEnd (Some (''QUIT'' @ CRLF)),
                   Resolve \<lparr>success = False, code = Some 421, message = Some ''421 busy''\<rparr>,
                   SocketWrite (''HELO example.com'' @ CRLF)]\<rparr>"
  by (simp add: eval_defs)

text \<open>
  Claim C7 asks that every failure of a session end in a classified outcome. A chunk
  that holds a line end and nothing else leaves no non-empty line; \<open>lastLine\<close> is
  \<open>undefined\<close> and \<open>parseCode\<close> throws a \<open>TypeError\<close> inside the \<open>data\<close> callback. Nothing
  catches it: the promise is neither resolved nor rejected, and \<open>verifyEmail\<close> does not
  return.
\<close>

theorem blank_line_throws_in_data_callback:
  "smtpVerifyMailbox default_config ''mx'' ''a@b.co'' [Data CRLF] = Inl TypeError \<and>
   await_smtpVerifyMailbox default_config ''mx'' ''a@b.co'' [Data CRLF] = Crashed TypeError \<and>
   smtpVerifyMailbox default_config ''mx'' ''a@b.co'' [reply ''220 hi'', Data CRLF] =
     Inl TypeError"
  by (simp add: eval_defs)

end
